theory Spec2Isabelle
  imports Main
begin

section \<open>Regular expressions, as used by \<open>validate_domain\<close>\<close>

text \<open>
  \<open>validate_domain\<close> compiles one pattern and asks \<open>re.match\<close> whether the string
  matches it. The pattern has no back-references and no look-around, so whether it matches
  is membership in a regular language. The pattern is written below with the constructors
  of \<open>rexp\<close>; the counted repetitions of the pattern are unfolded into them.
  A character class is a list of single characters and of ranges, as between the brackets
  of the pattern. Strings are lists of \<open>char\<close>.
\<close>

datatype citem = Single char | Range char char

fun in_citem :: "char \<Rightarrow> citem \<Rightarrow> bool" where
  "in_citem c (Single d) = (c = d)"
| "in_citem c (Range lo hi) = ((of_char lo :: nat) \<le> of_char c \<and> (of_char c :: nat) \<le> of_char hi)"

definition in_class :: "citem list \<Rightarrow> char \<Rightarrow> bool" where
  "in_class cl c = list_ex (in_citem c) cl"

datatype rexp =
    Zero
  | One
  | Cls "citem list"
  | Alt rexp rexp
  | Seq rexp rexp
  | Star rexp

text \<open>\<open>Exactly r k\<close> is \<open>r{k}\<close>, \<open>Upto r k\<close> is \<open>r{0,k}\<close>.\<close>

primrec Exactly :: "rexp \<Rightarrow> nat \<Rightarrow> rexp" where
  "Exactly r 0 = One"
| "Exactly r (Suc k) = Seq r (Exactly r k)"

primrec Upto :: "rexp \<Rightarrow> nat \<Rightarrow> rexp" where
  "Upto r 0 = One"
| "Upto r (Suc k) = Alt One (Seq r (Upto r k))"

text \<open>\<open>Between r m n\<close> is \<open>r{m,n}\<close>; \<open>AtLeast r m\<close> is \<open>r{m,}\<close>, so \<open>r+\<close> is
  \<open>AtLeast r 1\<close>; \<open>Opt r\<close> is \<open>r?\<close>.\<close>

definition Between :: "rexp \<Rightarrow> nat \<Rightarrow> nat \<Rightarrow> rexp" where
  "Between r m n = Seq (Exactly r m) (Upto r (n - m))"

definition AtLeast :: "rexp \<Rightarrow> nat \<Rightarrow> rexp" where
  "AtLeast r m = Seq (Exactly r m) (Star r)"

definition Opt :: "rexp \<Rightarrow> rexp" where
  "Opt r = Alt One r"

subsection \<open>Matching by derivatives\<close>

primrec nullable :: "rexp \<Rightarrow> bool" where
  "nullable Zero = False"
| "nullable One = True"
| "nullable (Cls cl) = False"
| "nullable (Alt r s) = (nullable r \<or> nullable s)"
| "nullable (Seq r s) = (nullable r \<and> nullable s)"
| "nullable (Star r) = True"

primrec deriv :: "char \<Rightarrow> rexp \<Rightarrow> rexp" where
  "deriv c Zero = Zero"
| "deriv c One = Zero"
| "deriv c (Cls cl) = (if in_class cl c then One else Zero)"
| "deriv c (Alt r s) = Alt (deriv c r) (deriv c s)"
| "deriv c (Seq r s) =
     (if nullable r then Alt (Seq (deriv c r) s) (deriv c s) else Seq (deriv c r) s)"
| "deriv c (Star r) = Seq (deriv c r) (Star r)"

primrec matches :: "rexp \<Rightarrow> string \<Rightarrow> bool" where
  "matches r [] = nullable r"
| "matches r (c # cs) = matches (deriv c r) cs"

text \<open>
  \<open>re.match\<close> of a pattern \<open>^r$\<close> (no flags): \<open>^\<close> holds at position 0, and \<open>$\<close>
  holds at the end of the string and also just before a newline that is the last
  character of the string.
\<close>

definition newline :: char where
  "newline = CHR 0x0A"

definition re_match_anchored :: "rexp \<Rightarrow> string \<Rightarrow> bool" where
  "re_match_anchored r s =
     (matches r s \<or> (s \<noteq> [] \<and> last s = newline \<and> matches r (butlast s)))"

section \<open>The domain validator\<close>

text \<open>The three character classes of the pattern: \<open>[a-zA-Z0-9]\<close>, \<open>[a-zA-Z0-9-]\<close>,
  \<open>[a-zA-Z]\<close>, and the escaped dot.\<close>

definition alnum_cl :: "citem list" where
  "alnum_cl = [Range CHR ''a'' CHR ''z'', Range CHR ''A'' CHR ''Z'', Range CHR ''0'' CHR ''9'']"

definition alnum_hyphen_cl :: "citem list" where
  "alnum_hyphen_cl =
     [Range CHR ''a'' CHR ''z'', Range CHR ''A'' CHR ''Z'', Range CHR ''0'' CHR ''9'',
      Single CHR ''-'']"

definition alpha_cl :: "citem list" where
  "alpha_cl = [Range CHR ''a'' CHR ''z'', Range CHR ''A'' CHR ''Z'']"

definition dot_cl :: "citem list" where
  "dot_cl = [Single CHR ''.'']"

text \<open>
  \<^verbatim>\<open>(?:[a-zA-Z0-9](?:[a-zA-Z0-9-]{0,61}[a-zA-Z0-9])?\.)+[a-zA-Z]{2,}\<close>
\<close>

definition label_re :: rexp where
  "label_re =
     Seq (Cls alnum_cl) (Opt (Seq (Between (Cls alnum_hyphen_cl) 0 61) (Cls alnum_cl)))"

definition domain_regex :: rexp where
  "domain_regex =
     Seq (AtLeast (Seq label_re (Cls dot_cl)) 1) (AtLeast (Cls alpha_cl) 2)"

definition validate_domain :: "string \<Rightarrow> bool" where
  "validate_domain domain =
     (if domain = [] \<or> length domain > 253 then False
      else re_match_anchored domain_regex domain)"

subsection \<open>The language of a regular expression\<close>

text \<open>
  The meaning of a pattern as a set of strings. \<open>matches\<close> is shown below to decide
  membership in it, so that the validator can be compared with the grammar of labels.
\<close>

definition conc :: "string set \<Rightarrow> string set \<Rightarrow> string set" where
  "conc A B = {u @ v | u v. u \<in> A \<and> v \<in> B}"

inductive_set star :: "string set \<Rightarrow> string set" for A :: "string set" where
  star_nil: "[] \<in> star A"
| star_app: "u \<in> A \<Longrightarrow> v \<in> star A \<Longrightarrow> u @ v \<in> star A"

primrec lang :: "rexp \<Rightarrow> string set" where
  "lang Zero = {}"
| "lang One = {[]}"
| "lang (Cls cl) = {[c] | c. in_class cl c}"
| "lang (Alt r s) = lang r \<union> lang s"
| "lang (Seq r s) = conc (lang r) (lang s)"
| "lang (Star r) = star (lang r)"

section \<open>The grammar of domain names, in the words of the specification\<close>

text \<open>
  The character sets are written out character by character, independently of the ranges
  of the pattern. A name is cut into labels at its dots, as \<open>str.split\<close> does; a label is
  1 to 63 alphanumeric-or-hyphen characters that neither starts nor ends with a hyphen; the
  last label is at least two alphabetic characters. (\<open>split_dots\<close> never returns the
  empty list, so the first branch of its \<open>case\<close> is never taken.)
\<close>

definition is_lower :: "char \<Rightarrow> bool" where
  "is_lower c = (c \<in> set ''abcdefghijklmnopqrstuvwxyz'')"

definition is_upper :: "char \<Rightarrow> bool" where
  "is_upper c = (c \<in> set ''ABCDEFGHIJKLMNOPQRSTUVWXYZ'')"

definition is_alpha :: "char \<Rightarrow> bool" where
  "is_alpha c = (is_lower c \<or> is_upper c)"

definition is_digit :: "char \<Rightarrow> bool" where
  "is_digit c = (c \<in> set ''0123456789'')"

definition is_alnum :: "char \<Rightarrow> bool" where
  "is_alnum c = (is_alpha c \<or> is_digit c)"

fun split_dots :: "string \<Rightarrow> string list" where
  "split_dots [] = [[]]"
| "split_dots (c # cs) =
     (if c = CHR ''.'' then [] # split_dots cs
      else (case split_dots cs of [] \<Rightarrow> [[c]] | l # ls \<Rightarrow> (c # l) # ls))"

definition spec_label :: "string \<Rightarrow> bool" where
  "spec_label l =
     (1 \<le> length l \<and> length l \<le> 63 \<and> list_all (\<lambda>c. is_alnum c \<or> c = CHR ''-'') l \<and>
      hd l \<noteq> CHR ''-'' \<and> last l \<noteq> CHR ''-'')"

definition spec_tld :: "string \<Rightarrow> bool" where
  "spec_tld l = (2 \<le> length l \<and> list_all is_alpha l)"

definition spec_domain :: "string \<Rightarrow> bool" where
  "spec_domain s =
     (let ls = split_dots s
      in 2 \<le> length ls \<and> list_all spec_label (butlast ls) \<and> spec_tld (last ls))"

text \<open>Labels written one after the other, each followed by a dot.\<close>

definition dotted :: "string list \<Rightarrow> string" where
  "dotted ls = concat (map (\<lambda>l. l @ ''.'') ls)"

text \<open>The three defects the specification names: an empty label, two dots in a row,
  a hyphen at the start or at the end of a label.\<close>

definition has_empty_label :: "string \<Rightarrow> bool" where
  "has_empty_label s = ([] \<in> set (split_dots s))"

fun consecutive_dots :: "string \<Rightarrow> bool" where
  "consecutive_dots (a # b # cs) =
     ((a = CHR ''.'' \<and> b = CHR ''.'') \<or> consecutive_dots (b # cs))"
| "consecutive_dots cs = False"

definition hyphen_at_boundary :: "string \<Rightarrow> bool" where
  "hyphen_at_boundary s =
     list_ex (\<lambda>l. l \<noteq> [] \<and> (hd l = CHR ''-'' \<or> last l = CHR ''-'')) (split_dots s)"

section \<open>The lookup dispatcher\<close>

text \<open>
  \<open>dns_lookup\<close> returns a dictionary; its values are booleans, integers, strings, lists
  and nested dictionaries. A dictionary is an association list in the order of the
  source's literal.
\<close>

datatype pyval =
    PBool bool
  | PInt int
  | PStr string
  | PList "pyval list"
  | PDict "(string \<times> pyval) list"

type_synonym pydict = "(string \<times> pyval) list"

text \<open>
  An answer of the resolver. The source reads \<open>str(rdata)\<close> of any answer,
  \<open>preference\<close> and \<open>exchange\<close> of an MX answer, and the seven fields of an SOA answer;
  \<open>exchange\<close>, \<open>mname\<close> and \<open>rname\<close> are kept as their \<open>str\<close>. The first argument of
  \<open>Rdata_MX\<close> and \<open>Rdata_SOA\<close> is the text of the record; \<open>Rdata_Other\<close> carries the
  name of its class and its text. Reading a field that an answer lacks raises
  \<open>AttributeError\<close>, whose message names the class and the field.
\<close>

datatype rdata =
    Rdata_MX string int string
  | Rdata_SOA string string string int int int int int
  | Rdata_Other string string

fun rdata_str :: "rdata \<Rightarrow> string" where
  "rdata_str (Rdata_MX txt preference exchange) = txt"
| "rdata_str (Rdata_SOA txt mname rname serial refresh retry expire minimum) = txt"
| "rdata_str (Rdata_Other cls txt) = txt"

fun rdata_class :: "rdata \<Rightarrow> string" where
  "rdata_class (Rdata_MX txt preference exchange) = ''MX''"
| "rdata_class (Rdata_SOA txt mname rname serial refresh retry expire minimum) = ''SOA''"
| "rdata_class (Rdata_Other cls txt) = cls"

definition attribute_error :: "rdata \<Rightarrow> string \<Rightarrow> string" where
  "attribute_error rd attr =
     [CHR 0x27] @ rdata_class rd @ [CHR 0x27] @ '' object has no attribute '' @
     [CHR 0x27] @ attr @ [CHR 0x27]"

text \<open>
  What creating a resolver and calling \<open>resolve(domain, record_type)\<close> comes to: the answers,
  or one of the exceptions that the handlers of \<open>dns_lookup\<close> tell apart, in their order
  (the last two carry \<open>str(e)\<close>). An interrupt of the process is not an outcome of the
  resolver and is not an \<open>Exception\<close>; the handlers let it through and it is not modelled.
  The world holds the back-end, which decides the outcome of a query, and the log of the
  queries issued so far.
\<close>

datatype resolver_outcome =
    Answers "rdata list"
  | NXDOMAIN
  | NoAnswer
  | Timeout
  | DNSException string
  | OtherException string

record world =
  backend :: "string \<Rightarrow> string \<Rightarrow> resolver_outcome"
  queries :: "(string \<times> string) list"

text \<open>\<open>str.upper\<close> on the letters \<open>a\<close> to \<open>z\<close>; the other characters of the
  8-bit \<open>char\<close> are left as they are.
  \<open>py_strip chars\<close> is \<open>str.strip(chars)\<close>: it drops the leading and the trailing
  characters that are in \<open>chars\<close>.\<close>

definition upper_char :: "char \<Rightarrow> char" where
  "upper_char c =
     (if in_citem c (Range CHR ''a'' CHR ''z'') then char_of (of_char c - (32 :: nat)) else c)"

definition py_upper :: "string \<Rightarrow> string" where
  "py_upper s = map upper_char s"

definition py_strip :: "string \<Rightarrow> string \<Rightarrow> string" where
  "py_strip chars s =
     rev (dropWhile (\<lambda>c. c \<in> set chars) (rev (dropWhile (\<lambda>c. c \<in> set chars) s)))"

text \<open>The body of the loop over the answers (lines 77 to 95): the value appended to
  \<open>results\<close>, or the message of the \<open>AttributeError\<close>.\<close>

definition normalize_rdata :: "string \<Rightarrow> rdata \<Rightarrow> string + pyval" where
  "normalize_rdata record_type rd =
     (if py_upper record_type = ''MX'' then
        (case rd of
           Rdata_MX txt preference exchange \<Rightarrow>
             Inr (PDict [(''preference'', PInt preference), (''exchange'', PStr exchange)])
         | _ \<Rightarrow> Inl (attribute_error rd ''preference''))
      else if py_upper record_type = ''TXT'' then
        Inr (PStr (py_strip [CHR 0x22] (rdata_str rd)))
      else if py_upper record_type = ''SOA'' then
        (case rd of
           Rdata_SOA txt mname rname serial refresh retry expire minimum \<Rightarrow>
             Inr (PDict [(''mname'', PStr mname), (''rname'', PStr rname),
                         (''serial'', PInt serial), (''refresh'', PInt refresh),
                         (''retry'', PInt retry), (''expire'', PInt expire),
                         (''minimum'', PInt minimum)])
         | _ \<Rightarrow> Inl (attribute_error rd ''mname''))
      else Inr (PStr (rdata_str rd)))"

fun process :: "string \<Rightarrow> rdata list \<Rightarrow> pyval list \<Rightarrow> string + pyval list" where
  "process record_type [] results = Inr results"
| "process record_type (rd # answers) results =
     (case normalize_rdata record_type rd of
        Inl e \<Rightarrow> Inl e
      | Inr v \<Rightarrow> process record_type answers (results @ [v]))"

text \<open>The dictionary that every failing branch returns, with its message.\<close>

definition failure :: "string \<Rightarrow> string \<Rightarrow> string \<Rightarrow> pydict" where
  "failure msg domain record_type =
     [(''success'', PBool False), (''error'', PStr msg), (''domain'', PStr domain),
      (''record_type'', PStr record_type)]"

text \<open>The \<open>try\<close> block and its handlers (lines 67 to 139), run on the name to query.\<close>

definition resolve_and_build :: "string \<Rightarrow> string \<Rightarrow> world \<Rightarrow> pydict \<times> world" where
  "resolve_and_build domain record_type w =
     ((case backend w domain record_type of
         Answers answers \<Rightarrow>
           (case process record_type answers [] of
              Inr results \<Rightarrow>
                [(''success'', PBool True), (''domain'', PStr domain),
                 (''record_type'', PStr record_type), (''records'', PList results),
                 (''count'', PInt (int (length results)))]
            | Inl e \<Rightarrow> failure (''Unexpected error: '' @ e) domain record_type)
       | NXDOMAIN \<Rightarrow> failure ''Domain does not exist'' domain record_type
       | NoAnswer \<Rightarrow> failure (''No '' @ record_type @ '' records found'') domain record_type
       | Timeout \<Rightarrow> failure ''DNS query timed out'' domain record_type
       | DNSException e \<Rightarrow> failure (''DNS error: '' @ e) domain record_type
       | OtherException e \<Rightarrow> failure (''Unexpected error: '' @ e) domain record_type),
      w\<lparr>queries := queries w @ [(domain, record_type)]\<rparr>)"

text \<open>
  \<open>dns_lookup\<close> (lines 44 to 65, then the \<open>try\<close> block). The address conversion
  \<open>dns.reversename.from_address\<close> belongs to the resolver library and is a parameter:
  \<open>None\<close> stands for any exception it raises, \<open>Some name\<close> for the text of the reverse name.
\<close>

definition dns_lookup ::
  "(string \<Rightarrow> string option) \<Rightarrow> string \<Rightarrow> string \<Rightarrow> world \<Rightarrow> pydict \<times> world" where
  "dns_lookup from_address domain record_type w =
     (if \<not> validate_domain domain then
        (failure ''Invalid domain format'' domain record_type, w)
      else if py_upper record_type = ''PTR'' then
        (case from_address domain of
           None \<Rightarrow> (failure ''Invalid IP address for PTR lookup'' domain record_type, w)
         | Some reversed_name \<Rightarrow> resolve_and_build reversed_name record_type w)
      else resolve_and_build domain record_type w)"


section \<open>The matcher decides the language\<close>

lemma nullable_lang: "nullable r \<longleftrightarrow> [] \<in> lang r"
  by (induction r) (auto simp: conc_def intro: star_nil)

lemma conc_cons_iff:
  "c # w \<in> conc A B \<longleftrightarrow>
     ([] \<in> A \<and> c # w \<in> B) \<or> (\<exists>u v. w = u @ v \<and> c # u \<in> A \<and> v \<in> B)"
proof
  assume "c # w \<in> conc A B"
  then obtain u v where uv: "c # w = u @ v" "u \<in> A" "v \<in> B"
    by (auto simp: conc_def)
  show "([] \<in> A \<and> c # w \<in> B) \<or> (\<exists>u v. w = u @ v \<and> c # u \<in> A \<and> v \<in> B)"
  proof (cases u)
    case Nil
    with uv show ?thesis by simp
  next
    case (Cons a u')
    with uv have "w = u' @ v" "c # u' \<in> A" by auto
    with uv show ?thesis by blast
  qed
next
  assume "([] \<in> A \<and> c # w \<in> B) \<or> (\<exists>u v. w = u @ v \<and> c # u \<in> A \<and> v \<in> B)"
  then show "c # w \<in> conc A B"
  proof
    assume "[] \<in> A \<and> c # w \<in> B"
    then have "[] @ (c # w) \<in> conc A B" unfolding conc_def by blast
    then show ?thesis by simp
  next
    assume "\<exists>u v. w = u @ v \<and> c # u \<in> A \<and> v \<in> B"
    then obtain u v where "w = u @ v" "c # u \<in> A" "v \<in> B" by blast
    then have "(c # u) @ v \<in> conc A B" unfolding conc_def by blast
    with \<open>w = u @ v\<close> show ?thesis by simp
  qed
qed

lemma star_cons_split:
  assumes "x \<in> star A" "x = c # w"
  shows "\<exists>u v. w = u @ v \<and> c # u \<in> A \<and> v \<in> star A"
  using assms
proof (induction arbitrary: w rule: star.induct)
  case star_nil
  then show ?case by simp
next
  case (star_app u v)
  show ?case
  proof (cases u)
    case Nil
    with star_app show ?thesis by simp
  next
    case (Cons a u')
    with star_app.prems have "a = c" "w = u' @ v" by auto
    with Cons star_app.hyps show ?thesis by blast
  qed
qed

lemma star_cons_iff:
  "c # w \<in> star A \<longleftrightarrow> (\<exists>u v. w = u @ v \<and> c # u \<in> A \<and> v \<in> star A)"
proof
  assume "c # w \<in> star A"
  then show "\<exists>u v. w = u @ v \<and> c # u \<in> A \<and> v \<in> star A"
    using star_cons_split by blast
next
  assume "\<exists>u v. w = u @ v \<and> c # u \<in> A \<and> v \<in> star A"
  then obtain u v where "w = u @ v" "c # u \<in> A" "v \<in> star A" by blast
  then have "(c # u) @ v \<in> star A" by (blast intro: star_app)
  with \<open>w = u @ v\<close> show "c # w \<in> star A" by simp
qed

lemma lang_deriv: "w \<in> lang (deriv c r) \<longleftrightarrow> c # w \<in> lang r"
proof (induction r arbitrary: w)
  case (Seq r s)
  have "w \<in> conc (lang (deriv c r)) (lang s) \<longleftrightarrow> (\<exists>u v. w = u @ v \<and> c # u \<in> lang r \<and> v \<in> lang s)"
    using Seq.IH(1) by (auto simp: conc_def)
  with Seq.IH(2) show ?case
    by (auto simp add: conc_cons_iff nullable_lang)
next
  case (Star r)
  have "w \<in> conc (lang (deriv c r)) (star (lang r)) \<longleftrightarrow>
        (\<exists>u v. w = u @ v \<and> c # u \<in> lang r \<and> v \<in> star (lang r))"
    using Star.IH by (auto simp: conc_def)
  then show ?case by (simp add: star_cons_iff)
qed auto

lemma matches_lang: "matches r w \<longleftrightarrow> w \<in> lang r"
  by (induction w arbitrary: r) (simp_all add: nullable_lang lang_deriv)

section \<open>The classes of the pattern are the character sets of the grammar\<close>

lemma range_enum:
  "((of_char lo :: nat) \<le> of_char c \<and> (of_char c :: nat) \<le> of_char hi) \<longleftrightarrow>
     c \<in> set (map char_of [of_char lo ..< Suc (of_char hi :: nat)])"
proof
  assume h: "(of_char lo :: nat) \<le> of_char c \<and> (of_char c :: nat) \<le> of_char hi"
  then have "(of_char c :: nat) \<in> set [of_char lo ..< Suc (of_char hi)]"
    by (simp only: set_upt atLeastLessThan_iff less_Suc_eq_le)
  then have "char_of (of_char c :: nat) \<in> set (map char_of [of_char lo ..< Suc (of_char hi :: nat)])"
    by (metis (no_types, lifting) image_eqI set_map)
  then show "c \<in> set (map char_of [of_char lo ..< Suc (of_char hi :: nat)])" by simp
next
  assume "c \<in> set (map char_of [of_char lo ..< Suc (of_char hi :: nat)])"
  then obtain n :: nat where n: "c = char_of n" "of_char lo \<le> n" "n \<le> of_char hi"
    unfolding set_map set_upt image_iff Bex_def atLeastLessThan_iff less_Suc_eq_le by blast
  have hi: "(of_char hi :: nat) < 256" by simp
  from n(3) hi have "n < 256" by (rule le_less_trans)
  then have "(of_char (char_of n :: char) :: nat) = n" by (simp add: of_char_of)
  with n show "(of_char lo :: nat) \<le> of_char c \<and> (of_char c :: nat) \<le> of_char hi" by simp
qed

lemma lower_enum: "map char_of [of_char CHR ''a'' ..< Suc (of_char CHR ''z'' :: nat)] = ''abcdefghijklmnopqrstuvwxyz''"
  by code_simp

lemma upper_enum: "map char_of [of_char CHR ''A'' ..< Suc (of_char CHR ''Z'' :: nat)] = ''ABCDEFGHIJKLMNOPQRSTUVWXYZ''"
  by code_simp

lemma digit_enum: "map char_of [of_char CHR ''0'' ..< Suc (of_char CHR ''9'' :: nat)] = ''0123456789''"
  by code_simp

lemma range_lower: "in_citem c (Range CHR ''a'' CHR ''z'') = is_lower c"
  by (simp only: in_citem.simps range_enum lower_enum is_lower_def)

lemma range_upper: "in_citem c (Range CHR ''A'' CHR ''Z'') = is_upper c"
  by (simp only: in_citem.simps range_enum upper_enum is_upper_def)

lemma range_digit: "in_citem c (Range CHR ''0'' CHR ''9'') = is_digit c"
  by (simp only: in_citem.simps range_enum digit_enum is_digit_def)

lemmas class_unfold = in_class_def list_ex_Cons_iff list_ex_Nil_iff range_lower range_upper
  range_digit in_citem.simps(1) is_alnum_def is_alpha_def

lemma in_alpha_cl: "in_class alpha_cl c \<longleftrightarrow> is_alpha c"
  by (simp only: alpha_cl_def class_unfold simp_thms)

lemma in_alnum_cl: "in_class alnum_cl c \<longleftrightarrow> is_alnum c"
  unfolding alnum_cl_def class_unfold by blast

lemma in_alnum_hyphen_cl: "in_class alnum_hyphen_cl c \<longleftrightarrow> is_alnum c \<or> c = CHR ''-''"
  unfolding alnum_hyphen_cl_def class_unfold by blast

lemma in_dot_cl: "in_class dot_cl c \<longleftrightarrow> c = CHR ''.''"
  by (simp add: in_class_def dot_cl_def)

section \<open>The language of the pattern\<close>

lemma concI: "u \<in> A \<Longrightarrow> v \<in> B \<Longrightarrow> u @ v \<in> conc A B"
  unfolding conc_def by blast

lemma concE:
  assumes "w \<in> conc A B"
  obtains u v where "w = u @ v" "u \<in> A" "v \<in> B"
  using assms unfolding conc_def by blast

lemma conc_One_left: "conc {[]} B = B"
  unfolding conc_def by simp

lemma Cls_iff: "w \<in> lang (Cls cl) \<longleftrightarrow> (\<exists>c. w = [c] \<and> in_class cl c)"
  by auto

lemma Cls_conc_cons:
  "a # v \<in> conc (lang (Cls cl)) B \<longleftrightarrow> in_class cl a \<and> v \<in> B"
proof
  assume "a # v \<in> conc (lang (Cls cl)) B"
  then obtain x y where xy: "a # v = x @ y" "x \<in> lang (Cls cl)" "y \<in> B"
    by (rule concE)
  from xy(2) obtain c where "x = [c]" "in_class cl c" unfolding Cls_iff by blast
  with xy show "in_class cl a \<and> v \<in> B" by simp
next
  assume h: "in_class cl a \<and> v \<in> B"
  then have "[a] \<in> lang (Cls cl)" unfolding Cls_iff by blast
  with h have "[a] @ v \<in> conc (lang (Cls cl)) B" by (blast intro: concI)
  then show "a # v \<in> conc (lang (Cls cl)) B" by simp
qed

lemma Cls_conc_nil: "[] \<notin> conc (lang (Cls cl)) B"
proof
  assume "[] \<in> conc (lang (Cls cl)) B"
  then obtain x y where xy: "[] = x @ y" "x \<in> lang (Cls cl)" by (rule concE)
  then show False unfolding Cls_iff by simp
qed

lemma lang_Exactly_Cls:
  "w \<in> lang (Exactly (Cls cl) k) \<longleftrightarrow> length w = k \<and> (\<forall>c \<in> set w. in_class cl c)"
proof (induction k arbitrary: w)
  case 0
  show ?case by auto
next
  case (Suc k)
  show ?case
  proof (cases w)
    case Nil
    then show ?thesis by (simp add: Cls_conc_nil del: lang.simps(3))
  next
    case (Cons a v)
    then show ?thesis using Suc.IH [of v]
      by (simp add: Cls_conc_cons conj_ac del: lang.simps(3))
  qed
qed

lemma lang_Upto_Cls:
  "w \<in> lang (Upto (Cls cl) k) \<longleftrightarrow> length w \<le> k \<and> (\<forall>c \<in> set w. in_class cl c)"
proof (induction k arbitrary: w)
  case 0
  show ?case by auto
next
  case (Suc k)
  show ?case
  proof (cases w)
    case Nil
    then show ?thesis by simp
  next
    case (Cons a v)
    then show ?thesis using Suc.IH [of v]
      by (simp add: Cls_conc_cons conj_ac del: lang.simps(3))
  qed
qed

lemma star_Cls_all:
  assumes "w \<in> star (lang (Cls cl))"
  shows "\<forall>c \<in> set w. in_class cl c"
  using assms
proof (induction rule: star.induct)
  case star_nil
  show ?case by simp
next
  case (star_app u v)
  from star_app.hyps(1) obtain c where "u = [c]" "in_class cl c" unfolding Cls_iff by blast
  with star_app.IH show ?case by simp
qed

lemma all_star_Cls:
  "\<forall>c \<in> set w. in_class cl c \<Longrightarrow> w \<in> star (lang (Cls cl))"
proof (induction w)
  case Nil
  show ?case by (rule star_nil)
next
  case (Cons a w)
  then have "[a] \<in> lang (Cls cl)" "w \<in> star (lang (Cls cl))" by simp_all
  then have "[a] @ w \<in> star (lang (Cls cl))" by (rule star_app)
  then show ?case by simp
qed

lemma lang_Star_Cls:
  "w \<in> lang (Star (Cls cl)) \<longleftrightarrow> (\<forall>c \<in> set w. in_class cl c)"
  using star_Cls_all [of w cl] all_star_Cls [of w cl] by (simp del: lang.simps(3)) blast

lemma lang_AtLeast_Cls:
  "w \<in> lang (AtLeast (Cls cl) m) \<longleftrightarrow> m \<le> length w \<and> (\<forall>c \<in> set w. in_class cl c)"
proof
  assume "w \<in> lang (AtLeast (Cls cl) m)"
  then have "w \<in> conc (lang (Exactly (Cls cl) m)) (lang (Star (Cls cl)))"
    by (simp add: AtLeast_def del: lang.simps(3))
  then obtain u v where uv: "w = u @ v" "u \<in> lang (Exactly (Cls cl) m)" "v \<in> lang (Star (Cls cl))"
    by (rule concE)
  from uv(2,3) have "length u = m" "\<forall>c \<in> set u. in_class cl c" "\<forall>c \<in> set v. in_class cl c"
    unfolding lang_Exactly_Cls lang_Star_Cls by simp_all
  with uv(1) show "m \<le> length w \<and> (\<forall>c \<in> set w. in_class cl c)" by auto
next
  assume h: "m \<le> length w \<and> (\<forall>c \<in> set w. in_class cl c)"
  have "take m w \<in> lang (Exactly (Cls cl) m)"
    unfolding lang_Exactly_Cls using h by (auto dest: in_set_takeD)
  moreover have "drop m w \<in> lang (Star (Cls cl))"
    unfolding lang_Star_Cls using h by (auto dest: in_set_dropD)
  ultimately have "take m w @ drop m w \<in> conc (lang (Exactly (Cls cl) m)) (lang (Star (Cls cl)))"
    by (rule concI)
  then show "w \<in> lang (AtLeast (Cls cl) m)" by (simp add: AtLeast_def del: lang.simps(3))
qed

lemma lang_Between0_Cls:
  "w \<in> lang (Between (Cls cl) 0 n) \<longleftrightarrow> length w \<le> n \<and> (\<forall>c \<in> set w. in_class cl c)"
  using lang_Upto_Cls [of w cl n] by (simp add: Between_def conc_One_left del: lang.simps(3))

lemma hyphen_not_alnum: "\<not> is_alnum CHR ''-''"
  by (simp add: is_alnum_def is_alpha_def is_lower_def is_upper_def is_digit_def)

lemma dot_not_alnum: "\<not> is_alnum CHR ''.''"
  by (simp add: is_alnum_def is_alpha_def is_lower_def is_upper_def is_digit_def)

lemma newline_not_alnum: "\<not> is_alnum newline"
  by (simp add: newline_def is_alnum_def is_alpha_def is_lower_def is_upper_def is_digit_def)

lemma alpha_alnum: "is_alpha c \<Longrightarrow> is_alnum c"
  by (simp add: is_alnum_def)

lemma lang_label_re: "w \<in> lang label_re \<longleftrightarrow> spec_label w"
proof
  assume "w \<in> lang label_re"
  then have "w \<in> conc (lang (Cls alnum_cl))
               ({[]} \<union> conc (lang (Between (Cls alnum_hyphen_cl) 0 61)) (lang (Cls alnum_cl)))"
    by (simp add: label_re_def Opt_def del: lang.simps(3))
  then obtain a v where av: "w = a # v" "is_alnum a"
      "v \<in> {[]} \<union> conc (lang (Between (Cls alnum_hyphen_cl) 0 61)) (lang (Cls alnum_cl))"
    by (cases w) (simp_all add: Cls_conc_nil Cls_conc_cons in_alnum_cl del: lang.simps(3))
  from av(3) show "spec_label w"
  proof
    assume "v \<in> {[]}"
    with av show ?thesis using hyphen_not_alnum by (auto simp: spec_label_def)
  next
    assume "v \<in> conc (lang (Between (Cls alnum_hyphen_cl) 0 61)) (lang (Cls alnum_cl))"
    then obtain m x where mx: "v = m @ x" "m \<in> lang (Between (Cls alnum_hyphen_cl) 0 61)"
        "x \<in> lang (Cls alnum_cl)"
      by (rule concE)
    from mx(3) obtain b where b: "x = [b]" "is_alnum b"
      unfolding Cls_iff in_alnum_cl by blast
    from mx(2) have m: "length m \<le> 61" "\<forall>c \<in> set m. is_alnum c \<or> c = CHR ''-''"
      unfolding lang_Between0_Cls in_alnum_hyphen_cl by simp_all
    have w: "w = a # m @ [b]" using av(1) mx(1) b(1) by simp
    show ?thesis
      unfolding spec_label_def w using av(2) b(2) m hyphen_not_alnum
      by (auto simp: list_all_iff)
  qed
next
  assume sl: "spec_label w"
  then obtain a v where w: "w = a # v" by (cases w) (simp_all add: spec_label_def)
  from sl w have a: "is_alnum a" by (auto simp: spec_label_def)
  have "v \<in> {[]} \<union> conc (lang (Between (Cls alnum_hyphen_cl) 0 61)) (lang (Cls alnum_cl))"
  proof (cases "v = []")
    case True
    then show ?thesis by simp
  next
    case False
    then have v: "v = butlast v @ [last v]" by simp
    from sl w False have "is_alnum (last v)" by (auto simp: spec_label_def list_all_iff)
    then have 1: "[last v] \<in> lang (Cls alnum_cl)" unfolding Cls_iff in_alnum_cl by blast
    from sl w have "length (butlast v) \<le> 61" by (auto simp: spec_label_def)
    moreover from sl w have "\<forall>c \<in> set (butlast v). is_alnum c \<or> c = CHR ''-''"
      by (auto simp: spec_label_def list_all_iff dest: in_set_butlastD)
    ultimately have 2: "butlast v \<in> lang (Between (Cls alnum_hyphen_cl) 0 61)"
      unfolding lang_Between0_Cls in_alnum_hyphen_cl by simp
    from 2 1 have "butlast v @ [last v] \<in>
        conc (lang (Between (Cls alnum_hyphen_cl) 0 61)) (lang (Cls alnum_cl))"
      by (rule concI)
    with v show ?thesis by simp
  qed
  with a have "a # v \<in> conc (lang (Cls alnum_cl))
               ({[]} \<union> conc (lang (Between (Cls alnum_hyphen_cl) 0 61)) (lang (Cls alnum_cl)))"
    by (simp add: Cls_conc_cons in_alnum_cl del: lang.simps(3))
  with w show "w \<in> lang label_re"
    by (simp add: label_re_def Opt_def del: lang.simps(3))
qed

lemma lang_tld: "w \<in> lang (AtLeast (Cls alpha_cl) 2) \<longleftrightarrow> spec_tld w"
  by (simp add: lang_AtLeast_Cls in_alpha_cl spec_tld_def list_all_iff del: lang.simps)

text \<open>One label followed by a dot.\<close>

lemma lang_label_dot:
  "w \<in> lang (Seq label_re (Cls dot_cl)) \<longleftrightarrow> (\<exists>l. spec_label l \<and> w = l @ ''.'')"
proof
  assume "w \<in> lang (Seq label_re (Cls dot_cl))"
  then have "w \<in> conc (lang label_re) (lang (Cls dot_cl))" by (simp del: lang.simps(3))
  then obtain l x where "w = l @ x" "l \<in> lang label_re" "x \<in> lang (Cls dot_cl)" by (rule concE)
  then show "\<exists>l. spec_label l \<and> w = l @ ''.''"
    unfolding lang_label_re Cls_iff in_dot_cl by auto
next
  assume "\<exists>l. spec_label l \<and> w = l @ ''.''"
  then obtain l where l: "spec_label l" "w = l @ ''.''" by blast
  have "''.'' \<in> lang (Cls dot_cl)" unfolding Cls_iff in_dot_cl by simp
  with l(1) have "l @ ''.'' \<in> conc (lang label_re) (lang (Cls dot_cl))"
    unfolding lang_label_re [symmetric] by (rule concI)
  with l(2) show "w \<in> lang (Seq label_re (Cls dot_cl))" by (simp del: lang.simps(3))
qed

lemma star_label_dot_dest:
  assumes "w \<in> star (lang (Seq label_re (Cls dot_cl)))"
  shows "\<exists>ls. list_all spec_label ls \<and> w = dotted ls"
  using assms
proof (induction rule: star.induct)
  case star_nil
  have "list_all spec_label [] \<and> [] = dotted []" by (simp add: dotted_def)
  then show ?case by blast
next
  case (star_app u v)
  from star_app.hyps(1) obtain l where l: "spec_label l" "u = l @ ''.''"
    unfolding lang_label_dot by blast
  from star_app.IH obtain ls where ls: "list_all spec_label ls" "v = dotted ls" by blast
  from l ls have "list_all spec_label (l # ls) \<and> u @ v = dotted (l # ls)"
    by (simp add: dotted_def)
  then show ?case by blast
qed

lemma star_label_dot_intro:
  "list_all spec_label ls \<Longrightarrow> dotted ls \<in> star (lang (Seq label_re (Cls dot_cl)))"
proof (induction ls)
  case Nil
  show ?case unfolding dotted_def by (simp add: star_nil del: lang.simps)
next
  case (Cons l ls)
  then have "l @ ''.'' \<in> lang (Seq label_re (Cls dot_cl))" unfolding lang_label_dot by auto
  moreover from Cons have "dotted ls \<in> star (lang (Seq label_re (Cls dot_cl)))" by simp
  ultimately have "(l @ ''.'') @ dotted ls \<in> star (lang (Seq label_re (Cls dot_cl)))"
    by (rule star_app)
  then show ?case by (simp add: dotted_def)
qed

lemma lang_AtLeast_1: "lang (AtLeast r 1) = conc (conc (lang r) {[]}) (star (lang r))"
  by (simp add: AtLeast_def)

lemma lang_labels:
  "w \<in> lang (AtLeast (Seq label_re (Cls dot_cl)) 1) \<longleftrightarrow>
     (\<exists>ls. ls \<noteq> [] \<and> list_all spec_label ls \<and> w = dotted ls)"
proof
  let ?A = "lang (Seq label_re (Cls dot_cl))"
  assume "w \<in> lang (AtLeast (Seq label_re (Cls dot_cl)) 1)"
  then have "w \<in> conc (conc ?A {[]}) (star ?A)"
    unfolding lang_AtLeast_1 .
  then obtain u v where uv: "w = u @ v" "u \<in> conc ?A {[]}" "v \<in> star ?A" by (rule concE)
  from uv(2) have "u \<in> ?A" by (auto elim: concE)
  then obtain l where l: "spec_label l" "u = l @ ''.''" unfolding lang_label_dot by blast
  from uv(3) obtain ls where ls: "list_all spec_label ls" "v = dotted ls"
    using star_label_dot_dest by blast
  from uv(1) l ls have "l # ls \<noteq> [] \<and> list_all spec_label (l # ls) \<and> w = dotted (l # ls)"
    by (simp add: dotted_def)
  then show "\<exists>ls. ls \<noteq> [] \<and> list_all spec_label ls \<and> w = dotted ls" by blast
next
  let ?A = "lang (Seq label_re (Cls dot_cl))"
  assume "\<exists>ls. ls \<noteq> [] \<and> list_all spec_label ls \<and> w = dotted ls"
  then obtain ks where ks: "ks \<noteq> []" "list_all spec_label ks" "w = dotted ks" by blast
  then obtain l ls where "ks = l # ls" by (cases ks) simp_all
  with ks have ls: "spec_label l" "list_all spec_label ls" "w = dotted (l # ls)" by simp_all
  from ls(1) have "l @ ''.'' \<in> ?A" unfolding lang_label_dot by blast
  then have "(l @ ''.'') @ [] \<in> conc ?A {[]}" by (blast intro: concI)
  moreover from ls(2) have "dotted ls \<in> star ?A" by (rule star_label_dot_intro)
  ultimately have "((l @ ''.'') @ []) @ dotted ls \<in> lang (AtLeast (Seq label_re (Cls dot_cl)) 1)"
    unfolding lang_AtLeast_1 by (rule concI)
  with ls(3) show "w \<in> lang (AtLeast (Seq label_re (Cls dot_cl)) 1)"
    by (simp add: dotted_def del: lang.simps)
qed

lemma lang_domain_regex:
  "w \<in> lang domain_regex \<longleftrightarrow>
     (\<exists>ls t. ls \<noteq> [] \<and> list_all spec_label ls \<and> spec_tld t \<and> w = dotted ls @ t)"
proof
  assume "w \<in> lang domain_regex"
  then have "w \<in> conc (lang (AtLeast (Seq label_re (Cls dot_cl)) 1)) (lang (AtLeast (Cls alpha_cl) 2))"
    by (simp add: domain_regex_def)
  then obtain u t where "w = u @ t" "u \<in> lang (AtLeast (Seq label_re (Cls dot_cl)) 1)"
      "t \<in> lang (AtLeast (Cls alpha_cl) 2)"
    by (rule concE)
  then show "\<exists>ls t. ls \<noteq> [] \<and> list_all spec_label ls \<and> spec_tld t \<and> w = dotted ls @ t"
    unfolding lang_labels lang_tld by blast
next
  assume "\<exists>ls t. ls \<noteq> [] \<and> list_all spec_label ls \<and> spec_tld t \<and> w = dotted ls @ t"
  then obtain ls t where h: "ls \<noteq> []" "list_all spec_label ls" "spec_tld t" "w = dotted ls @ t"
    by blast
  from h(1,2) have "dotted ls \<in> lang (AtLeast (Seq label_re (Cls dot_cl)) 1)"
    unfolding lang_labels by blast
  moreover from h(3) have "t \<in> lang (AtLeast (Cls alpha_cl) 2)" unfolding lang_tld .
  ultimately have "dotted ls @ t \<in>
      conc (lang (AtLeast (Seq label_re (Cls dot_cl)) 1)) (lang (AtLeast (Cls alpha_cl) 2))"
    by (rule concI)
  with h(4) show "w \<in> lang domain_regex" by (simp add: domain_regex_def)
qed

section \<open>Cutting a name into labels\<close>

lemma split_dots_nonempty: "split_dots s \<noteq> []"
  by (induction s) (simp_all split: list.splits)

lemma split_dots_Cons:
  "split_dots (c # cs) =
     (if c = CHR ''.'' then [] # split_dots cs
      else (c # hd (split_dots cs)) # tl (split_dots cs))"
  using split_dots_nonempty [of cs] by (cases "split_dots cs") simp_all

declare split_dots.simps(2) [simp del]

declare split_dots_Cons [simp]

lemma split_dots_nodot: "CHR ''.'' \<notin> set t \<Longrightarrow> split_dots t = [t]"
  by (induction t) auto

lemma split_dots_label:
  "CHR ''.'' \<notin> set l \<Longrightarrow> split_dots (l @ CHR ''.'' # rest) = l # split_dots rest"
  by (induction l) auto

lemma split_dots_dotted:
  "list_all (\<lambda>l. CHR ''.'' \<notin> set l) ls \<Longrightarrow> CHR ''.'' \<notin> set t \<Longrightarrow>
     split_dots (dotted ls @ t) = ls @ [t]"
proof (induction ls)
  case Nil
  then show ?case by (simp add: dotted_def split_dots_nodot)
next
  case (Cons l ls)
  then have "split_dots (l @ CHR ''.'' # (dotted ls @ t)) = l # (ls @ [t])"
    by (simp add: split_dots_label)
  then show ?case by (simp add: dotted_def)
qed

lemma dotted_split_dots: "dotted (butlast (split_dots s)) @ last (split_dots s) = s"
proof (induction s)
  case Nil
  show ?case by (simp add: dotted_def)
next
  case (Cons c s)
  obtain x xs where x: "split_dots s = x # xs"
    using split_dots_nonempty [of s] by (cases "split_dots s") simp_all
  with Cons show ?case by (auto simp: dotted_def)
qed

lemma split_dots_snoc:
  "c \<noteq> CHR ''.'' \<Longrightarrow>
     split_dots (s @ [c]) = butlast (split_dots s) @ [last (split_dots s) @ [c]]"
proof (induction s)
  case Nil
  then show ?case by simp
next
  case (Cons a s)
  obtain x xs where x: "split_dots s = x # xs"
    using split_dots_nonempty [of s] by (cases "split_dots s") simp_all
  with Cons show ?case by (cases xs) auto
qed

lemma spec_label_nodot: "spec_label l \<Longrightarrow> CHR ''.'' \<notin> set l"
  using dot_not_alnum by (auto simp: spec_label_def list_all_iff)

lemma spec_tld_nodot: "spec_tld t \<Longrightarrow> CHR ''.'' \<notin> set t"
  using dot_not_alnum alpha_alnum by (auto simp: spec_tld_def list_all_iff)

lemma lang_domain_regex_spec: "w \<in> lang domain_regex \<longleftrightarrow> spec_domain w"
proof
  assume "w \<in> lang domain_regex"
  then obtain ls t where h: "ls \<noteq> []" "list_all spec_label ls" "spec_tld t" "w = dotted ls @ t"
    unfolding lang_domain_regex by blast
  from h(2) have "list_all (\<lambda>l. CHR ''.'' \<notin> set l) ls"
    by (simp add: list_all_iff spec_label_nodot)
  with h(3,4) have "split_dots w = ls @ [t]"
    by (simp add: split_dots_dotted spec_tld_nodot)
  moreover from h(1) have "2 \<le> length (ls @ [t])" by (cases ls) simp_all
  ultimately show "spec_domain w" using h(2,3) by (simp add: spec_domain_def)
next
  assume sd: "spec_domain w"
  let ?ls = "butlast (split_dots w)" and ?t = "last (split_dots w)"
  from sd have "2 \<le> length (split_dots w)" by (simp add: spec_domain_def Let_def)
  then have "?ls \<noteq> []" by (cases "split_dots w" rule: rev_cases) auto
  moreover from sd have "list_all spec_label ?ls" "spec_tld ?t"
    by (simp_all add: spec_domain_def Let_def)
  moreover have "w = dotted ?ls @ ?t" by (simp add: dotted_split_dots)
  ultimately show "w \<in> lang domain_regex" unfolding lang_domain_regex by blast
qed

lemma validate_domain_iff:
  "validate_domain s \<longleftrightarrow>
     s \<noteq> [] \<and> length s \<le> 253 \<and>
     (spec_domain s \<or> (last s = newline \<and> spec_domain (butlast s)))"
  by (auto simp: validate_domain_def re_match_anchored_def matches_lang lang_domain_regex_spec)

lemma consecutive_dots_empty_label:
  "consecutive_dots s \<Longrightarrow> [] \<in> set (tl (split_dots s))"
proof (induction s rule: consecutive_dots.induct)
  case (1 a b cs)
  show ?case
  proof (cases "a = CHR ''.'' \<and> b = CHR ''.''")
    case True
    then show ?thesis by simp
  next
    case False
    with 1 have ih: "[] \<in> set (tl (split_dots (b # cs)))" by simp
    have ne: "split_dots (b # cs) \<noteq> []" by (rule split_dots_nonempty)
    from ne ih have mem: "[] \<in> set (split_dots (b # cs))" by (rule list.set_sel(2))
    have "tl (split_dots (a # b # cs)) = split_dots (b # cs) \<or>
          tl (split_dots (a # b # cs)) = tl (split_dots (b # cs))"
      by simp
    then show ?thesis
    proof
      assume "tl (split_dots (a # b # cs)) = split_dots (b # cs)"
      with mem show ?thesis by (simp only:)
    next
      assume "tl (split_dots (a # b # cs)) = tl (split_dots (b # cs))"
      with ih show ?thesis by (simp only:)
    qed
  qed
qed simp_all

lemma hyphen_not_alpha: "\<not> is_alpha CHR ''-''"
  using hyphen_not_alnum alpha_alnum by blast

lemma spec_domain_labels:
  assumes "spec_domain s" "l \<in> set (split_dots s)"
  shows "l \<noteq> [] \<and> hd l \<noteq> CHR ''-'' \<and> last l \<noteq> CHR ''-'' \<and> is_alnum (hd l)"
proof -
  let ?ls = "split_dots s"
  have "?ls = butlast ?ls @ [last ?ls]" using split_dots_nonempty [of s] by simp
  then have "set ?ls = set (butlast ?ls) \<union> {last ?ls}"
    by (metis Un_insert_right append_Nil2 list.simps(15) set_append sup_bot.right_neutral empty_set)
  with assms(2) consider "l \<in> set (butlast ?ls)" | "l = last ?ls" by blast
  then show ?thesis
  proof cases
    case 1
    with assms(1) have "spec_label l" by (simp add: spec_domain_def Let_def list_all_iff)
    then show ?thesis using hyphen_not_alnum
      by (cases l) (auto simp: spec_label_def)
  next
    case 2
    with assms(1) have t: "spec_tld l" by (simp add: spec_domain_def Let_def)
    then have "l \<noteq> []" by (auto simp: spec_tld_def)
    with t have "is_alpha (hd l)" "is_alpha (last l)" by (simp_all add: spec_tld_def list_all_iff)
    with \<open>l \<noteq> []\<close> show ?thesis using hyphen_not_alpha alpha_alnum by auto
  qed
qed

section \<open>What the validator accepts\<close>

lemma spec_domain_nonempty: "spec_domain s \<Longrightarrow> s \<noteq> []"
  by (auto simp: spec_domain_def)

lemma validate_domain_labels:
  assumes "validate_domain s" "l \<in> set (split_dots s)"
  shows "l \<noteq> [] \<and> hd l \<noteq> CHR ''-'' \<and> last l \<noteq> CHR ''-''"
proof -
  from assms(1) consider "spec_domain s"
    | "s \<noteq> []" "last s = newline" "spec_domain (butlast s)"
    unfolding validate_domain_iff by blast
  then show ?thesis
  proof cases
    case 1
    then show ?thesis using assms(2) spec_domain_labels by blast
  next
    case 2
    let ?X = "split_dots (butlast s)"
    have nl: "newline \<noteq> CHR ''.''" "newline \<noteq> CHR ''-''" by (simp_all add: newline_def)
    from 2(1,2) have "s = butlast s @ [newline]" by (metis append_butlast_last_id)
    then have "split_dots s = butlast ?X @ [last ?X @ [newline]]"
      using split_dots_snoc [OF nl(1), of "butlast s"] by simp
    with assms(2) consider "l \<in> set (butlast ?X)" | "l = last ?X @ [newline]" by auto
    then show ?thesis
    proof cases
      case 1
      then have "l \<in> set ?X" by (rule in_set_butlastD)
      with 2(3) show ?thesis using spec_domain_labels by blast
    next
      case 2
      have "last ?X \<in> set ?X" using split_dots_nonempty by simp
      with \<open>spec_domain (butlast s)\<close> have "last ?X \<noteq> [] \<and> hd (last ?X) \<noteq> CHR ''-''"
        using spec_domain_labels by blast
      with 2 nl(2) show ?thesis by simp
    qed
  qed
qed

lemma validate_domain_rejects:
  assumes "has_empty_label s \<or> consecutive_dots s \<or> hyphen_at_boundary s"
  shows "\<not> validate_domain s"
proof
  assume v: "validate_domain s"
  from assms consider "[] \<in> set (split_dots s)" | "consecutive_dots s" | "hyphen_at_boundary s"
    unfolding has_empty_label_def by blast
  then show False
  proof cases
    case 1
    with v show False using validate_domain_labels by blast
  next
    case 2
    then have "[] \<in> set (tl (split_dots s))" by (rule consecutive_dots_empty_label)
    with split_dots_nonempty have "[] \<in> set (split_dots s)" by (rule list.set_sel(2))
    with v show False using validate_domain_labels by blast
  next
    case 3
    then obtain l where "l \<in> set (split_dots s)" "hd l = CHR ''-'' \<or> last l = CHR ''-''"
      unfolding hyphen_at_boundary_def list_ex_iff by blast
    with v show False using validate_domain_labels by blast
  qed
qed

lemma validate_domain_spec:
  "s = [] \<or> last s \<noteq> newline \<Longrightarrow> validate_domain s \<longleftrightarrow> length s \<le> 253 \<and> spec_domain s"
  unfolding validate_domain_iff using spec_domain_nonempty by blast






section \<open>Properties of the lookup\<close>

lemma upper_PTR: "py_upper ''PTR'' = ''PTR''" by (simp add: py_upper_def upper_char_def)

lemma upper_MX: "py_upper ''MX'' = ''MX''" by (simp add: py_upper_def upper_char_def)

lemma upper_TXT: "py_upper ''TXT'' = ''TXT''" by (simp add: py_upper_def upper_char_def)

lemma fst_resolve_and_build:
  "fst (resolve_and_build name rt w) =
     (case backend w name rt of
         Answers answers \<Rightarrow>
           (case process rt answers [] of
              Inr results \<Rightarrow>
                [(''success'', PBool True), (''domain'', PStr name),
                 (''record_type'', PStr rt), (''records'', PList results),
                 (''count'', PInt (int (length results)))]
            | Inl e \<Rightarrow> failure (''Unexpected error: '' @ e) name rt)
       | NXDOMAIN \<Rightarrow> failure ''Domain does not exist'' name rt
       | NoAnswer \<Rightarrow> failure (''No '' @ rt @ '' records found'') name rt
       | Timeout \<Rightarrow> failure ''DNS query timed out'' name rt
       | DNSException e \<Rightarrow> failure (''DNS error: '' @ e) name rt
       | OtherException e \<Rightarrow> failure (''Unexpected error: '' @ e) name rt)"
  by (simp add: resolve_and_build_def)

lemma snd_resolve_and_build:
  "snd (resolve_and_build name rt w) = w\<lparr>queries := queries w @ [(name, rt)]\<rparr>"
  by (simp add: resolve_and_build_def)

lemma dns_lookup_invalid:
  "\<not> validate_domain domain \<Longrightarrow>
     dns_lookup fa domain rt w = (failure ''Invalid domain format'' domain rt, w)"
  by (simp add: dns_lookup_def)

lemma dns_lookup_queried:
  assumes "validate_domain domain"
    and "if py_upper rt = ''PTR'' then fa domain = Some name else name = domain"
  shows "dns_lookup fa domain rt w = resolve_and_build name rt w"
  using assms by (auto simp: dns_lookup_def split: if_splits)


lemma process_all_defined:
  "\<forall>rd \<in> set answers. \<exists>v. normalize_rdata rt rd = Inr v \<Longrightarrow>
     process rt answers acc = Inr (acc @ map (\<lambda>rd. projr (normalize_rdata rt rd)) answers)"
proof (induction answers arbitrary: acc)
  case Nil
  show ?case by simp
next
  case (Cons rd answers)
  from Cons.prems obtain v where v: "normalize_rdata rt rd = Inr v" by auto
  from Cons.prems have "\<forall>rd \<in> set answers. \<exists>v. normalize_rdata rt rd = Inr v" by simp
  then have "process rt answers (acc @ [v]) =
      Inr ((acc @ [v]) @ map (\<lambda>rd. projr (normalize_rdata rt rd)) answers)"
    by (rule Cons.IH)
  with v show ?case by simp
qed




lemma not_valid_quad: "\<not> validate_domain ''8.8.8.8''"
proof -
  have "\<not> spec_domain ''8.8.8.8''" by code_simp
  then show ?thesis by (simp add: validate_domain_spec newline_def)
qed

lemma not_valid_word: "\<not> validate_domain ''not-an-ip''"
proof -
  have "\<not> spec_domain ''not-an-ip''" by code_simp
  then show ?thesis by (simp add: validate_domain_spec newline_def)
qed

lemma valid_example: "validate_domain ''example.com''"
proof -
  have "spec_domain ''example.com''" by code_simp
  then show ?thesis by (simp add: validate_domain_spec newline_def)
qed



text \<open>
  \<^bold>\<open>C1.\<close> A PTR lookup of an address literal is not converted and not queried: the validator
  runs first, before the record type is looked at, and rejects \<open>8.8.8.8\<close> with
  "Invalid domain format", whatever the address conversion and the resolver would do. An input
  that is not an address, such as \<open>not-an-ip\<close>, gets the same message, not
  "Invalid IP address for PTR lookup". The world, and so the log of queries, is unchanged.
\<close>

theorem dns_lookup_ptr_address_rejected:
  "dns_lookup from_address ''8.8.8.8'' ''PTR'' w =
     (failure ''Invalid domain format'' ''8.8.8.8'' ''PTR'', w) \<and>
   dns_lookup from_address ''not-an-ip'' ''PTR'' w =
     (failure ''Invalid domain format'' ''not-an-ip'' ''PTR'', w)"
  using not_valid_quad not_valid_word by (simp add: dns_lookup_invalid)

text \<open>
  \<^bold>\<open>C2.\<close> For a string that does not end in a newline, \<open>validate_domain\<close> holds exactly
  when the string has at most 253 characters and is made of one or more labels followed by
  a final label of at least two letters. For every string, an empty label, two consecutive
  dots or a hyphen at the start or end of a label make \<open>validate_domain\<close> false.
\<close>

theorem validate_domain_grammar:
  "(s = [] \<or> last s \<noteq> newline \<longrightarrow>
      (validate_domain s \<longleftrightarrow> length s \<le> 253 \<and> spec_domain s)) \<and>
   (has_empty_label s \<or> consecutive_dots s \<or> hyphen_at_boundary s \<longrightarrow>
      \<not> validate_domain s)"
  using validate_domain_spec [of s] validate_domain_rejects [of s] by blast

theorem validate_domain_grammar_witness:
  "validate_domain ''example.com'' \<and> \<not> validate_domain ''a..com'' \<and>
   \<not> validate_domain ''-a.com''"
proof -
  have 1: "last ''example.com'' \<noteq> newline" "length ''example.com'' \<le> 253"
    by (simp_all add: newline_def)
  have 2: "spec_domain ''example.com''" by code_simp
  have 3: "consecutive_dots ''a..com''" by simp
  have 4: "hyphen_at_boundary ''-a.com''" by code_simp
  from 1 2 3 4 validate_domain_grammar [of "''example.com''"]
    validate_domain_grammar [of "''a..com''"] validate_domain_grammar [of "''-a.com''"]
  show ?thesis by blast
qed

theorem validate_domain_grammar_counterexample:
  "\<not> (validate_domain (''a.bc'' @ [newline]) \<longleftrightarrow> spec_domain (''a.bc'' @ [newline])) \<and>
   \<not> (validate_domain (concat (replicate 126 ''a.'') @ ''com'') \<longleftrightarrow>
        spec_domain (concat (replicate 126 ''a.'') @ ''com''))"
proof -
  have 1: "\<not> spec_domain (''a.bc'' @ [newline])" by code_simp
  have "spec_domain ''a.bc''" by code_simp
  then have 2: "validate_domain (''a.bc'' @ [newline])" by (simp add: validate_domain_iff)
  have 3: "spec_domain (concat (replicate 126 ''a.'') @ ''com'')" by code_simp
  have "length (concat (replicate 126 ''a.'') @ ''com'') = 255" by code_simp
  then have 4: "\<not> validate_domain (concat (replicate 126 ''a.'') @ ''com'')"
    by (simp add: validate_domain_def)
  from 1 2 3 4 show ?thesis by blast
qed

text \<open>
  \<^bold>\<open>C3.\<close> \<open>validate_domain\<close> is false for the empty string and for every string longer
  than 253 characters.
\<close>

theorem validate_domain_length:
  "s = [] \<or> 253 < length s \<Longrightarrow> \<not> validate_domain s"
  by (auto simp: validate_domain_def)

theorem validate_domain_length_witness:
  "\<not> validate_domain [] \<and> 253 < length (replicate 254 CHR ''a'') \<and>
   \<not> validate_domain (replicate 254 CHR ''a'')"
proof -
  have h: "253 < length (replicate 254 CHR ''a'')" by simp
  from h validate_domain_length [of "[]"] validate_domain_length [of "replicate 254 CHR ''a''"]
  show ?thesis by blast
qed

text \<open>
  \<^bold>\<open>C4.\<close> If the validator rejects the domain, \<open>dns_lookup\<close> returns the failure
  "Invalid domain format" for every record type, and the world is returned as it was: no query
  is added to the log, the resolver is not called.
\<close>

theorem dns_lookup_invalid_domain:
  "\<not> validate_domain domain \<Longrightarrow>
     dns_lookup from_address domain record_type w =
       (failure ''Invalid domain format'' domain record_type, w) \<and>
     queries (snd (dns_lookup from_address domain record_type w)) = queries w"
  by (simp add: dns_lookup_invalid)

theorem dns_lookup_invalid_domain_witness:
  "\<not> validate_domain [] \<and>
   dns_lookup (\<lambda>s. None) [] ''A'' \<lparr>backend = (\<lambda>n t. NXDOMAIN), queries = []\<rparr> =
     ([(''success'', PBool False), (''error'', PStr ''Invalid domain format''),
       (''domain'', PStr []), (''record_type'', PStr ''A'')],
      \<lparr>backend = (\<lambda>n t. NXDOMAIN), queries = []\<rparr>)"
proof -
  have h: "\<not> validate_domain []" by (simp add: validate_domain_def)
  from h dns_lookup_invalid_domain [OF h, of "\<lambda>s. None" "''A''"
      "\<lparr>backend = (\<lambda>n t. NXDOMAIN), queries = []\<rparr>"]
  show ?thesis by (simp add: failure_def)
qed

text \<open>
  \<^bold>\<open>C5.\<close> Once the domain is valid and \<open>name\<close> is the name that is queried (the domain
  itself, or the reverse name for a PTR lookup), every failing outcome of the resolver becomes
  a failure dictionary with its message: NXDOMAIN, no answer, timeout, any other DNS exception,
  any other exception, and an \<open>AttributeError\<close> raised while the answers are read.
\<close>

theorem dns_lookup_error_mapping:
  assumes "validate_domain domain"
    and "if py_upper record_type = ''PTR'' then from_address domain = Some name
         else name = domain"
  shows
    "(backend w name record_type = NXDOMAIN \<longrightarrow>
        fst (dns_lookup from_address domain record_type w) =
          failure ''Domain does not exist'' name record_type) \<and>
     (backend w name record_type = NoAnswer \<longrightarrow>
        fst (dns_lookup from_address domain record_type w) =
          failure (''No '' @ record_type @ '' records found'') name record_type) \<and>
     (backend w name record_type = Timeout \<longrightarrow>
        fst (dns_lookup from_address domain record_type w) =
          failure ''DNS query timed out'' name record_type) \<and>
     (\<forall>details. backend w name record_type = DNSException details \<longrightarrow>
        fst (dns_lookup from_address domain record_type w) =
          failure (''DNS error: '' @ details) name record_type) \<and>
     (\<forall>details. backend w name record_type = OtherException details \<longrightarrow>
        fst (dns_lookup from_address domain record_type w) =
          failure (''Unexpected error: '' @ details) name record_type) \<and>
     (\<forall>answers details. backend w name record_type = Answers answers \<longrightarrow>
        process record_type answers [] = Inl details \<longrightarrow>
        fst (dns_lookup from_address domain record_type w) =
          failure (''Unexpected error: '' @ details) name record_type)"
proof -
  have q: "dns_lookup from_address domain record_type w = resolve_and_build name record_type w"
    using assms by (rule dns_lookup_queried)
  show ?thesis unfolding q fst_resolve_and_build by simp
qed

theorem dns_lookup_error_mapping_witness:
  "validate_domain ''example.com'' \<and>
   fst (dns_lookup (\<lambda>s. None) ''example.com'' ''A''
          \<lparr>backend = (\<lambda>n t. NXDOMAIN), queries = []\<rparr>) =
     [(''success'', PBool False), (''error'', PStr ''Domain does not exist''),
      (''domain'', PStr ''example.com''), (''record_type'', PStr ''A'')] \<and>
   fst (dns_lookup (\<lambda>s. None) ''example.com'' ''A''
          \<lparr>backend = (\<lambda>n t. NoAnswer), queries = []\<rparr>) =
     [(''success'', PBool False), (''error'', PStr ''No A records found''),
      (''domain'', PStr ''example.com''), (''record_type'', PStr ''A'')] \<and>
   fst (dns_lookup (\<lambda>s. None) ''example.com'' ''A''
          \<lparr>backend = (\<lambda>n t. Timeout), queries = []\<rparr>) =
     [(''success'', PBool False), (''error'', PStr ''DNS query timed out''),
      (''domain'', PStr ''example.com''), (''record_type'', PStr ''A'')] \<and>
   fst (dns_lookup (\<lambda>s. None) ''example.com'' ''A''
          \<lparr>backend = (\<lambda>n t. DNSException ''refused''), queries = []\<rparr>) =
     [(''success'', PBool False), (''error'', PStr ''DNS error: refused''),
      (''domain'', PStr ''example.com''), (''record_type'', PStr ''A'')] \<and>
   fst (dns_lookup (\<lambda>s. None) ''example.com'' ''A''
          \<lparr>backend = (\<lambda>n t. OtherException ''boom''), queries = []\<rparr>) =
     [(''success'', PBool False), (''error'', PStr ''Unexpected error: boom''),
      (''domain'', PStr ''example.com''), (''record_type'', PStr ''A'')]"
proof -
  have v: "validate_domain ''example.com''" by (rule valid_example)
  have n: "if py_upper ''A'' = ''PTR'' then (\<lambda>s. None) ''example.com'' = Some ''example.com''
           else ''example.com'' = ''example.com''"
    by (simp add: py_upper_def upper_char_def)
  note m = dns_lookup_error_mapping [where domain = "''example.com''" and record_type = "''A''"
      and from_address = "\<lambda>s. None" and name = "''example.com''", OF v n]
  from v m [of "\<lparr>backend = (\<lambda>n t. NXDOMAIN), queries = []\<rparr>"]
    m [of "\<lparr>backend = (\<lambda>n t. NoAnswer), queries = []\<rparr>"]
    m [of "\<lparr>backend = (\<lambda>n t. Timeout), queries = []\<rparr>"]
    m [of "\<lparr>backend = (\<lambda>n t. DNSException ''refused''), queries = []\<rparr>"]
    m [of "\<lparr>backend = (\<lambda>n t. OtherException ''boom''), queries = []\<rparr>"]
  show ?thesis by (simp add: failure_def)
qed





text \<open>
  \<^bold>\<open>C7.\<close> \<open>dns_lookup\<close> of \<open>example.com\<close> and \<open>MX\<close>, when the resolver returns
  the single answer with preference 10 and exchange \<open>mail.example.com\<close>, is a success with
  exactly that record and count 1.
\<close>

theorem dns_lookup_mx_example:
  assumes "backend w ''example.com'' ''MX'' = Answers [Rdata_MX txt 10 ''mail.example.com'']"
  shows "fst (dns_lookup from_address ''example.com'' ''MX'' w) =
     [(''success'', PBool True), (''domain'', PStr ''example.com''),
      (''record_type'', PStr ''MX''),
      (''records'', PList [PDict [(''preference'', PInt 10),
                                   (''exchange'', PStr ''mail.example.com'')]]),
      (''count'', PInt 1)]"
proof -
  have "dns_lookup from_address ''example.com'' ''MX'' w =
      resolve_and_build ''example.com'' ''MX'' w"
    using valid_example by (simp add: dns_lookup_def upper_MX)
  with assms show ?thesis
    by (simp add: fst_resolve_and_build normalize_rdata_def upper_MX)
qed

theorem dns_lookup_mx_example_witness:
  "fst (dns_lookup (\<lambda>s. None) ''example.com'' ''MX''
          \<lparr>backend = (\<lambda>n t. Answers [Rdata_MX ''10 mail.example.com'' 10 ''mail.example.com'']),
           queries = []\<rparr>) =
     [(''success'', PBool True), (''domain'', PStr ''example.com''),
      (''record_type'', PStr ''MX''),
      (''records'', PList [PDict [(''preference'', PInt 10),
                                   (''exchange'', PStr ''mail.example.com'')]]),
      (''count'', PInt 1)]"
proof -
  let ?w = "\<lparr>backend = (\<lambda>n t. Answers [Rdata_MX ''10 mail.example.com'' 10 ''mail.example.com'']),
        queries = []\<rparr>"
  have b: "backend ?w ''example.com'' ''MX'' =
      Answers [Rdata_MX ''10 mail.example.com'' 10 ''mail.example.com'']"
    by simp
  show ?thesis using b by (rule dns_lookup_mx_example)
qed

lemma py_strip_decompose:
  "\<exists>pre post. s = pre @ py_strip chars s @ post \<and> set pre \<subseteq> set chars \<and>
     set post \<subseteq> set chars"
proof -
  let ?P = "\<lambda>c. c \<in> set chars"
  let ?m = "dropWhile ?P s"
  have 1: "s = takeWhile ?P s @ ?m" by simp
  have "rev (takeWhile ?P (rev ?m) @ dropWhile ?P (rev ?m)) = rev (rev ?m)"
    by (simp only: takeWhile_dropWhile_id)
  then have "rev (dropWhile ?P (rev ?m)) @ rev (takeWhile ?P (rev ?m)) = ?m"
    by (simp only: rev_append rev_rev_ident)
  then have 2: "?m = py_strip chars s @ rev (takeWhile ?P (rev ?m))"
    by (simp only: py_strip_def)
  from 1 2 have "s = takeWhile ?P s @ py_strip chars s @ rev (takeWhile ?P (rev ?m))" by simp
  moreover have "set (takeWhile ?P s) \<subseteq> set chars" by (auto dest: set_takeWhileD)
  moreover have "set (rev (takeWhile ?P (rev ?m))) \<subseteq> set chars" by (auto dest: set_takeWhileD)
  ultimately show ?thesis by blast
qed

lemma py_strip_ends:
  assumes "py_strip chars s \<noteq> []"
  shows "hd (py_strip chars s) \<notin> set chars \<and> last (py_strip chars s) \<notin> set chars"
proof -
  let ?P = "\<lambda>c. c \<in> set chars"
  let ?m = "dropWhile ?P s"
  let ?d = "dropWhile ?P (rev ?m)"
  have st: "py_strip chars s = rev ?d" by (simp add: py_strip_def)
  with assms have d: "?d \<noteq> []" by simp
  then have nd: "\<not> ?P (hd ?d)" by (rule hd_dropWhile)
  from d have "last (rev ?d) = hd ?d" by (simp add: last_rev)
  with nd have l: "last (py_strip chars s) \<notin> set chars" unfolding st by simp
  have m: "?m \<noteq> []"
  proof
    assume e: "?m = []"
    have "dropWhile ?P (rev []) = []" by simp
    then have "?d = []" by (simp only: e)
    with d show False by (simp only: not_True_eq_False simp_thms)
  qed
  then have nm: "\<not> ?P (hd ?m)" by (rule hd_dropWhile)
  from d have "last (takeWhile ?P (rev ?m) @ ?d) = last ?d" by (rule last_appendR)
  then have "last (rev ?m) = last ?d" by (simp only: takeWhile_dropWhile_id)
  moreover from m have "last (rev ?m) = hd ?m" by (simp add: last_rev)
  moreover from d have "hd (rev ?d) = last ?d" by (simp add: hd_rev)
  ultimately have "hd (rev ?d) = hd ?m" by simp
  with nm have h: "hd (py_strip chars s) \<notin> set chars" unfolding st by simp
  from h l show ?thesis by (rule conjI)
qed

text \<open>
  \<^bold>\<open>C8.\<close> For a TXT lookup of a valid domain, every record is the text of the answer with
  its surrounding double quotes stripped: the text is the record with only quotes before and
  after it, and a record that is not empty neither starts nor ends with a quote.
\<close>

theorem dns_lookup_txt_strips_quotes:
  assumes "validate_domain domain"
    and "py_upper record_type = ''TXT''"
    and "backend w domain record_type = Answers answers"
  shows "fst (dns_lookup from_address domain record_type w) =
     [(''success'', PBool True), (''domain'', PStr domain),
      (''record_type'', PStr record_type),
      (''records'', PList (map (\<lambda>rd. PStr (py_strip [CHR 0x22] (rdata_str rd))) answers)),
      (''count'', PInt (int (length answers)))] \<and>
     (\<forall>rd \<in> set answers. \<exists>pre post.
        rdata_str rd = pre @ py_strip [CHR 0x22] (rdata_str rd) @ post \<and>
        set pre \<subseteq> {CHR 0x22} \<and> set post \<subseteq> {CHR 0x22} \<and>
        (py_strip [CHR 0x22] (rdata_str rd) \<noteq> [] \<longrightarrow>
           hd (py_strip [CHR 0x22] (rdata_str rd)) \<noteq> CHR 0x22 \<and>
           last (py_strip [CHR 0x22] (rdata_str rd)) \<noteq> CHR 0x22))"
proof
  have norm: "\<And>rd. normalize_rdata record_type rd = Inr (PStr (py_strip [CHR 0x22] (rdata_str rd)))"
    using assms(2) by (simp add: normalize_rdata_def)
  then have "\<forall>rd \<in> set answers. \<exists>v. normalize_rdata record_type rd = Inr v" by simp
  then have p: "process record_type answers [] =
      Inr ([] @ map (\<lambda>rd. projr (normalize_rdata record_type rd)) answers)"
    by (rule process_all_defined)
  have "dns_lookup from_address domain record_type w = resolve_and_build domain record_type w"
    using assms(1,2) by (simp add: dns_lookup_def)
  with assms(3) p show "fst (dns_lookup from_address domain record_type w) =
     [(''success'', PBool True), (''domain'', PStr domain),
      (''record_type'', PStr record_type),
      (''records'', PList (map (\<lambda>rd. PStr (py_strip [CHR 0x22] (rdata_str rd))) answers)),
      (''count'', PInt (int (length answers)))]"
    by (simp add: fst_resolve_and_build norm)
next
  show "\<forall>rd \<in> set answers. \<exists>pre post.
        rdata_str rd = pre @ py_strip [CHR 0x22] (rdata_str rd) @ post \<and>
        set pre \<subseteq> {CHR 0x22} \<and> set post \<subseteq> {CHR 0x22} \<and>
        (py_strip [CHR 0x22] (rdata_str rd) \<noteq> [] \<longrightarrow>
           hd (py_strip [CHR 0x22] (rdata_str rd)) \<noteq> CHR 0x22 \<and>
           last (py_strip [CHR 0x22] (rdata_str rd)) \<noteq> CHR 0x22)"
  proof
    fix rd assume "rd \<in> set answers"
    from py_strip_decompose [of "rdata_str rd" "[CHR 0x22]"]
    obtain pre post where "rdata_str rd = pre @ py_strip [CHR 0x22] (rdata_str rd) @ post"
      "set pre \<subseteq> {CHR 0x22}" "set post \<subseteq> {CHR 0x22}"
      by auto
    moreover have "py_strip [CHR 0x22] (rdata_str rd) \<noteq> [] \<longrightarrow>
           hd (py_strip [CHR 0x22] (rdata_str rd)) \<noteq> CHR 0x22 \<and>
           last (py_strip [CHR 0x22] (rdata_str rd)) \<noteq> CHR 0x22"
      using py_strip_ends [of "[CHR 0x22]" "rdata_str rd"] by simp
    ultimately show "\<exists>pre post.
        rdata_str rd = pre @ py_strip [CHR 0x22] (rdata_str rd) @ post \<and>
        set pre \<subseteq> {CHR 0x22} \<and> set post \<subseteq> {CHR 0x22} \<and>
        (py_strip [CHR 0x22] (rdata_str rd) \<noteq> [] \<longrightarrow>
           hd (py_strip [CHR 0x22] (rdata_str rd)) \<noteq> CHR 0x22 \<and>
           last (py_strip [CHR 0x22] (rdata_str rd)) \<noteq> CHR 0x22)"
      by blast
  qed
qed

theorem dns_lookup_txt_strips_quotes_witness:
  "fst (dns_lookup (\<lambda>s. None) ''example.com'' ''TXT''
          \<lparr>backend = (\<lambda>n t. Answers [Rdata_Other ''TXT'' ([CHR 0x22] @ ''v=spf1 -all'' @ [CHR 0x22])]),
           queries = []\<rparr>) =
     [(''success'', PBool True), (''domain'', PStr ''example.com''),
      (''record_type'', PStr ''TXT''),
      (''records'', PList [PStr ''v=spf1 -all'']),
      (''count'', PInt 1)]"
proof -
  let ?w = "\<lparr>backend = (\<lambda>n t. Answers [Rdata_Other ''TXT'' ([CHR 0x22] @ ''v=spf1 -all'' @ [CHR 0x22])]),
           queries = []\<rparr>"
  have b: "backend ?w ''example.com'' ''TXT'' =
      Answers [Rdata_Other ''TXT'' ([CHR 0x22] @ ''v=spf1 -all'' @ [CHR 0x22])]"
    by simp
  have s: "py_strip [CHR 0x22] ([CHR 0x22] @ ''v=spf1 -all'' @ [CHR 0x22]) = ''v=spf1 -all''"
    by (simp add: py_strip_def)
  from dns_lookup_txt_strips_quotes [OF valid_example upper_TXT b, of "\<lambda>s. None"] s
  show ?thesis by simp
qed

lemma backend_resolve_and_build: "backend (snd (resolve_and_build name rt w)) = backend w"
  by (simp add: snd_resolve_and_build)

lemma dns_lookup_backend: "backend (snd (dns_lookup fa domain rt w)) = backend w"
proof (cases "fa domain")
  case None
  then show ?thesis by (simp add: dns_lookup_def backend_resolve_and_build)
next
  case (Some name)
  then show ?thesis by (simp add: dns_lookup_def backend_resolve_and_build)
qed

lemma resolve_and_build_backend_only:
  "backend w' = backend w \<Longrightarrow>
     fst (resolve_and_build name rt w') = fst (resolve_and_build name rt w)"
  by (simp add: fst_resolve_and_build)

lemma dns_lookup_backend_only:
  assumes "backend w' = backend w"
  shows "fst (dns_lookup fa domain rt w') = fst (dns_lookup fa domain rt w)"
proof -
  have r: "\<And>name. fst (resolve_and_build name rt w') = fst (resolve_and_build name rt w)"
    using assms by (rule resolve_and_build_backend_only)
  show ?thesis
  proof (cases "fa domain")
    case None
    then show ?thesis by (simp add: dns_lookup_def r)
  next
    case (Some name)
    then show ?thesis by (simp add: dns_lookup_def r)
  qed
qed

text \<open>
  \<^bold>\<open>C9.\<close> A second call with the same arguments, made in a world whose back-end is the one
  the first call left, returns the same dictionary as the first call.
\<close>

theorem dns_lookup_repeatable:
  assumes "backend w' = backend (snd (dns_lookup from_address domain record_type w))"
  shows "fst (dns_lookup from_address domain record_type w') =
         fst (dns_lookup from_address domain record_type w)"
proof -
  from assms have "backend w' = backend w" by (simp only: dns_lookup_backend)
  then show ?thesis by (rule dns_lookup_backend_only)
qed

theorem dns_lookup_repeatable_witness:
  "fst (dns_lookup (\<lambda>s. None) ''example.com'' ''A''
         (snd (dns_lookup (\<lambda>s. None) ''example.com'' ''A''
            \<lparr>backend = (\<lambda>n t. Answers [Rdata_Other ''A'' ''192.0.2.1'']), queries = []\<rparr>))) =
   fst (dns_lookup (\<lambda>s. None) ''example.com'' ''A''
         \<lparr>backend = (\<lambda>n t. Answers [Rdata_Other ''A'' ''192.0.2.1'']), queries = []\<rparr>) \<and>
   queries (snd (dns_lookup (\<lambda>s. None) ''example.com'' ''A''
            \<lparr>backend = (\<lambda>n t. Answers [Rdata_Other ''A'' ''192.0.2.1'']), queries = []\<rparr>)) =
     [(''example.com'', ''A'')]"
proof -
  let ?w = "\<lparr>backend = (\<lambda>n t. Answers [Rdata_Other ''A'' ''192.0.2.1'']), queries = []\<rparr>"
  have up: "py_upper ''A'' = ''A''" by (simp add: py_upper_def upper_char_def)
  have "queries (snd (dns_lookup (\<lambda>s. None) ''example.com'' ''A'' ?w)) = [(''example.com'', ''A'')]"
    using valid_example by (simp add: dns_lookup_def up snd_resolve_and_build)
  with dns_lookup_repeatable [of "snd (dns_lookup (\<lambda>s. None) ''example.com'' ''A'' ?w)"
      "\<lambda>s. None" "''example.com''" "''A''" ?w]
  show ?thesis by simp
qed







end
